theory Spec2Isabelle
  imports Main "HOL-Library.AList" "HOL-Library.Sublist"
begin

section \<open>Strings\<close>

text \<open>
  A Python \<open>str\<close> is modelled as a \<open>string\<close>, each \<open>char\<close> standing for one code point
  below 256. On that range the character classes of \<open>re\<close> and of \<open>str.strip\<close> are the
  ones below: \<open>\s\<close> and \<open>strip()\<close> use the same whitespace test, \<open>\d\<close> matches the ten
  decimal digits only, and \<open>lower()\<close> shifts the ASCII and the Latin-1 capital letters.
\<close>

definition is_space :: "char \<Rightarrow> bool" where
  "is_space c =
     (let n = (of_char c :: nat)
      in (9 \<le> n \<and> n \<le> 13) \<or> (28 \<le> n \<and> n \<le> 32) \<or> n = 133 \<or> n = 160)"

definition is_digit :: "char \<Rightarrow> bool" where
  "is_digit c = (let n = (of_char c :: nat) in 48 \<le> n \<and> n \<le> 57)"

definition lower_char :: "char \<Rightarrow> char" where
  "lower_char c =
     (let n = (of_char c :: nat)
      in if (65 \<le> n \<and> n \<le> 90) \<or> (192 \<le> n \<and> n \<le> 222 \<and> n \<noteq> 215)
         then char_of (n + 32) else c)"

definition lower :: "string \<Rightarrow> string" where
  "lower s = map lower_char s"

text \<open>\<open>k in s\<close> on strings: \<open>k\<close> occurs in \<open>s\<close> as a contiguous substring.\<close>

fun contains :: "string \<Rightarrow> string \<Rightarrow> bool" where
  "contains [] k = (k = [])"
| "contains (c # cs) k = (prefix k (c # cs) \<or> contains cs k)"

text \<open>\<open>'\n'.join(content)\<close>\<close>

fun join_lines :: "string list \<Rightarrow> string" where
  "join_lines [] = []"
| "join_lines [x] = x"
| "join_lines (x # y # ys) = x @ CHR 0x0A # join_lines (y # ys)"

text \<open>\<open>name.replace(' ', '_')\<close>\<close>

definition replace_spaces :: "string \<Rightarrow> string" where
  "replace_spaces name = map (\<lambda>c. if c = CHR '' '' then CHR ''_'' else c) name"

subsection \<open>\<open>WikipediaScraper.clean_text\<close>\<close>

text \<open>
  \<open>match_citation s\<close> is the attempt of the pattern \<open>\[\d+\]\<close> at the start of \<open>s\<close>:
  the rest of the string behind the match, or \<open>None\<close>. The digit run is greedy, and no
  shorter run can be followed by \<open>]\<close>, so the match exists exactly when the longest
  digit run behind \<open>[\<close> is non-empty and is followed by \<open>]\<close>.
\<close>

definition match_citation :: "string \<Rightarrow> string option" where
  "match_citation s =
     (case s of
        [] \<Rightarrow> None
      | c # cs \<Rightarrow>
          if c = CHR ''['' \<and> takeWhile is_digit cs \<noteq> [] then
            (case dropWhile is_digit cs of
               [] \<Rightarrow> None
             | d # rest \<Rightarrow> if d = CHR '']'' then Some rest else None)
          else None)"

text \<open>
  \<open>re.sub(r'\[\d+\]', '', text)\<close>: one scan from the left; a match is dropped and the scan
  goes on behind it, any other character is copied.
\<close>

function sub_citations :: "string \<Rightarrow> string" where
  "sub_citations [] = []"
| "sub_citations (c # cs) =
     (case match_citation (c # cs) of
        Some rest \<Rightarrow> sub_citations rest
      | None \<Rightarrow> c # sub_citations cs)"
  by pat_completeness auto
termination
proof (relation "measure length")
  show "wf (measure length)" by simp
next
  fix c cs rest
  assume "match_citation (c # cs) = Some rest"
  then obtain d where "dropWhile is_digit cs = d # rest"
    by (auto simp: match_citation_def split: if_splits list.splits)
  then have "length (d # rest) \<le> length cs"
    by (metis length_dropWhile_le)
  then show "(rest, c # cs) \<in> measure length" by simp
next
  fix c :: char and cs :: string
  show "(cs, c # cs) \<in> measure length" by simp
qed

text \<open>\<open>re.sub(r'\s+', ' ', text)\<close>: every maximal whitespace run becomes one space.\<close>

function sub_spaces :: "string \<Rightarrow> string" where
  "sub_spaces [] = []"
| "sub_spaces (c # cs) =
     (if is_space c then CHR '' '' # sub_spaces (dropWhile is_space cs)
      else c # sub_spaces cs)"
  by pat_completeness auto
termination
  by (relation "measure length") (auto simp: length_dropWhile_le less_Suc_eq_le)

definition strip :: "string \<Rightarrow> string" where
  "strip s = rev (dropWhile is_space (rev (dropWhile is_space s)))"

definition clean_text :: "string \<Rightarrow> string" where
  "clean_text text =
     (if text = [] then []
      else take 2000 (strip (sub_spaces (sub_citations text))))"

text \<open>The properties of a cleaned text: two whitespace characters in a row,\<close>

fun has_double_space :: "string \<Rightarrow> bool" where
  "has_double_space (a # b # cs) = ((is_space a \<and> is_space b) \<or> has_double_space (b # cs))"
| "has_double_space [a] = False"
| "has_double_space [] = False"

text \<open>a citation marker, \<open>[\<close> then one or more digits then \<open>]\<close>, somewhere in the text,\<close>

fun has_citation :: "string \<Rightarrow> bool" where
  "has_citation [] = False"
| "has_citation (c # cs) = (match_citation (c # cs) \<noteq> None \<or> has_citation cs)"

text \<open>and two \<open>[\<close> with nothing but digits (or nothing at all) between them.\<close>

fun has_nested_open :: "string \<Rightarrow> bool" where
  "has_nested_open [] = False"
| "has_nested_open (c # cs) =
     ((c = CHR ''['' \<and> (case dropWhile is_digit cs of [] \<Rightarrow> False | d # rest \<Rightarrow> d = CHR ''[''))
      \<or> has_nested_open cs)"

section \<open>The parsed document\<close>

text \<open>
  The tree that \<open>BeautifulSoup(response.text, 'html.parser')\<close> returns: a tag has a name,
  the values of its \<open>class\<close> attribute and its children; a text node is a string. The
  document itself is the list of its top-level nodes.
\<close>

datatype node =
    Tag (tag_name: string) (classes: "string list") (contents: "node list")
  | NavigableString string

type_synonym soup = "node list"

fun is_tag :: "node \<Rightarrow> bool" where
  "is_tag (Tag n cl ch) = True"
| "is_tag (NavigableString s) = False"

text \<open>\<open>tag.get_text()\<close>: the text nodes below the tag, concatenated in document order.\<close>

fun get_text :: "node \<Rightarrow> string" where
  "get_text (NavigableString s) = s"
| "get_text (Tag n cl ch) = concat (map get_text ch)"

text \<open>
  \<open>find P nodes\<close> is \<open>soup.find(P)\<close>: the first tag in document order (a tag before its
  descendants, those before its later siblings) that satisfies \<open>P\<close>. The result carries
  the later siblings of the tag, which is all the position of the tag is used for.
\<close>

fun find_tag :: "(node \<Rightarrow> bool) \<Rightarrow> node list \<Rightarrow> (node \<times> node list) option" where
  "find_tag P [] = None"
| "find_tag P (NavigableString s # xs) = find_tag P xs"
| "find_tag P (Tag n cl ch # xs) =
     (if P (Tag n cl ch) then Some (Tag n cl ch, xs)
      else (case find_tag P ch of
              Some r \<Rightarrow> Some r
            | None \<Rightarrow> find_tag P xs))"

text \<open>\<open>find_all_tags P nodes\<close> is \<open>find_all\<close>: every such tag, in document order.\<close>

fun find_all_tags :: "(node \<Rightarrow> bool) \<Rightarrow> node list \<Rightarrow> node list" where
  "find_all_tags P [] = []"
| "find_all_tags P (NavigableString s # xs) = find_all_tags P xs"
| "find_all_tags P (Tag n cl ch # xs) =
     (if P (Tag n cl ch) then [Tag n cl ch] else []) @ find_all_tags P ch @ find_all_tags P xs"

text \<open>\<open>heading.find_next_siblings()\<close>: the later siblings that are tags.\<close>

definition find_next_siblings :: "node list \<Rightarrow> node list" where
  "find_next_siblings later = filter is_tag later"

section \<open>\<open>WikipediaScraper.extract_events\<close>\<close>

record life_event =
  ev_type :: string
  ev_content :: string

definition sections :: "(string \<times> string list) list" where
  "sections =
     [(''Early Life'', [''early life'', ''childhood'', ''education'']),
      (''Career'', [''career'', ''professional'', ''work'']),
      (''Achievements'', [''achievements'', ''awards'', ''honors'']),
      (''Personal Life'', [''personal life'', ''relationships'', ''family'']),
      (''Later Years'', [''later years'', ''retirement'', ''death''])]"

text \<open>\<open>elem.name == n\<close>; a text node has no name.\<close>

definition has_name :: "node \<Rightarrow> string \<Rightarrow> bool" where
  "has_name elem n = (is_tag elem \<and> tag_name elem = n)"

definition is_heading :: "node \<Rightarrow> bool" where
  "is_heading t = (has_name t ''h2'' \<or> has_name t ''h3'')"

definition heading_matches :: "string \<Rightarrow> node \<Rightarrow> bool" where
  "heading_matches keyword t = (is_heading t \<and> contains (lower (get_text t)) keyword)"

text \<open>The loop over the siblings behind the heading, up to the next heading.\<close>

fun collect_paragraphs :: "string list \<Rightarrow> node list \<Rightarrow> string list" where
  "collect_paragraphs content [] = content"
| "collect_paragraphs content (elem # elems) =
     (if has_name elem ''h2'' \<or> has_name elem ''h3'' then content
      else if has_name elem ''p'' then
        (let text = clean_text (get_text elem)
         in if text \<noteq> [] then collect_paragraphs (content @ [text]) elems
            else collect_paragraphs content elems)
      else collect_paragraphs content elems)"

text \<open>
  The loop over the keywords of one category: the first keyword that finds a heading
  decides, and the loop ends there (\<open>break\<close>) whether or not an event was appended.
\<close>

fun keyword_loop :: "soup \<Rightarrow> string \<Rightarrow> string list \<Rightarrow> life_event list \<Rightarrow> life_event list" where
  "keyword_loop soup section_name [] events = events"
| "keyword_loop soup section_name (keyword # keywords) events =
     (case find_tag (heading_matches keyword) soup of
        None \<Rightarrow> keyword_loop soup section_name keywords events
      | Some (heading, later) \<Rightarrow>
          (let content = collect_paragraphs [] (find_next_siblings later)
           in if content \<noteq> [] then
                events @ [\<lparr>ev_type = section_name, ev_content = take 3000 (join_lines content)\<rparr>]
              else events))"

fun section_loop :: "soup \<Rightarrow> (string \<times> string list) list \<Rightarrow> life_event list \<Rightarrow> life_event list" where
  "section_loop soup [] events = events"
| "section_loop soup ((section_name, keywords) # rest) events =
     section_loop soup rest (keyword_loop soup section_name keywords events)"

definition extract_events :: "soup \<Rightarrow> life_event list" where
  "extract_events soup = section_loop soup sections []"

text \<open>
  The heading that the keyword loop of one category stops at, with its later siblings:
  the heading found for the first keyword that finds one.
\<close>

fun select_heading :: "soup \<Rightarrow> string list \<Rightarrow> (node \<times> node list) option" where
  "select_heading soup [] = None"
| "select_heading soup (keyword # keywords) =
     (case find_tag (heading_matches keyword) soup of
        None \<Rightarrow> select_heading soup keywords
      | Some found \<Rightarrow> Some found)"

text \<open>The content of the event for a heading with these later siblings.\<close>

definition section_text :: "node list \<Rightarrow> string" where
  "section_text later = take 3000 (join_lines (collect_paragraphs [] (find_next_siblings later)))"

text \<open>What one turn of the loop over the categories appends.\<close>

definition section_event :: "soup \<Rightarrow> string \<times> string list \<Rightarrow> life_event list" where
  "section_event soup sec = keyword_loop soup (fst sec) (snd sec) []"

text \<open>A document with a single heading, \<open>Career and family\<close>, and one paragraph behind it.\<close>

definition career_family_heading :: node where
  "career_family_heading = Tag ''h2'' [] [NavigableString ''Career and family'']"

definition career_family_paragraph :: node where
  "career_family_paragraph = Tag ''p'' [] [NavigableString ''Worked  hard.[1]'']"

definition career_family_doc :: soup where
  "career_family_doc = [career_family_heading, career_family_paragraph]"

section \<open>\<open>WikipediaScraper.get_person_data\<close>\<close>

text \<open>
  A call into a library either returns a value or raises an exception (a subclass of
  \<open>Exception\<close>), of which the code only ever reads \<open>str(e)\<close>.
\<close>

datatype 'a outcome = Raises string | Returns 'a

text \<open>
  What \<open>session.get\<close> returns. The status code is part of the response; the code never
  reads it and never calls \<open>raise_for_status\<close>.
\<close>

record response =
  status_code :: nat
  response_text :: string

text \<open>
  The libraries behind one call of \<open>get_person_data\<close>: \<open>wiki.page(title).exists()\<close>,
  \<open>page.summary\<close>, \<open>session.get(url, timeout=15)\<close> and
  \<open>BeautifulSoup(response.text, 'html.parser')\<close>.
\<close>

record world =
  page_exists :: "string \<Rightarrow> bool outcome"
  page_summary :: "string \<Rightarrow> string outcome"
  session_get :: "string \<Rightarrow> response outcome"
  html_parser :: "string \<Rightarrow> soup outcome"

text \<open>
  The dictionary that \<open>get_person_data\<close> returns has one of two shapes: the single key
  \<open>error\<close>, or the keys \<open>summary\<close>, \<open>infobox\<close>, \<open>events\<close> and \<open>url\<close>. The infobox is a
  \<open>dict\<close>: an association list in insertion order, written with \<open>AList.update\<close>, which
  replaces the value of a key that is already there and appends a new key at the end.
\<close>

type_synonym infobox = "(string \<times> string) list"

datatype person_data =
    Failure string
  | Success string infobox "life_event list" string

text \<open>\<open>row.th\<close> and \<open>row.td\<close>: the first tag of that name below the row.\<close>

definition first_named :: "string \<Rightarrow> node \<Rightarrow> node option" where
  "first_named n row =
     (case row of
        NavigableString s \<Rightarrow> None
      | Tag rn cl ch \<Rightarrow> map_option fst (find_tag (\<lambda>t. has_name t n) ch))"

fun infobox_rows :: "infobox \<Rightarrow> node list \<Rightarrow> infobox" where
  "infobox_rows infobox [] = infobox"
| "infobox_rows infobox (row # rows) =
     (case (first_named ''th'' row, first_named ''td'' row) of
        (Some th, Some td) \<Rightarrow>
          (let key = clean_text (get_text th);
               value = clean_text (get_text td)
           in if key \<noteq> [] \<and> value \<noteq> []
              then infobox_rows (AList.update key value infobox) rows
              else infobox_rows infobox rows)
      | _ \<Rightarrow> infobox_rows infobox rows)"

definition is_infobox_table :: "node \<Rightarrow> bool" where
  "is_infobox_table t = (has_name t ''table'' \<and> ''infobox'' \<in> set (classes t))"

definition extract_infobox :: "soup \<Rightarrow> infobox" where
  "extract_infobox soup =
     (case find_tag is_infobox_table soup of
        None \<Rightarrow> []
      | Some (infobox_table, later) \<Rightarrow>
          infobox_rows [] (find_all_tags (\<lambda>t. has_name t ''tr'') (contents infobox_table)))"

definition wiki_url :: "string \<Rightarrow> string" where
  "wiki_url name = ''https://en.wikipedia.org/wiki/'' @ replace_spaces name"

text \<open>The body of the \<open>try\<close> block: the first call that raises ends it.\<close>

definition fetch_person :: "world \<Rightarrow> string \<Rightarrow> person_data outcome" where
  "fetch_person w name =
     (case page_exists w (replace_spaces name) of
        Raises e \<Rightarrow> Raises e
      | Returns found \<Rightarrow>
          if \<not> found then Returns (Failure ''Page not found'')
          else
            (case session_get w (wiki_url name) of
               Raises e \<Rightarrow> Raises e
             | Returns response \<Rightarrow>
                 (case html_parser w (response_text response) of
                    Raises e \<Rightarrow> Raises e
                  | Returns soup \<Rightarrow>
                      (let infobox = extract_infobox soup;
                           events = extract_events soup
                       in case page_summary w (replace_spaces name) of
                            Raises e \<Rightarrow> Raises e
                          | Returns summary \<Rightarrow>
                              Returns (Success (take 3000 summary) infobox events
                                         (wiki_url name))))))"

text \<open>\<open>try: ... except Exception as e: return {'error': str(e)}\<close>\<close>

definition get_person_data :: "world \<Rightarrow> string \<Rightarrow> person_data outcome" where
  "get_person_data w name =
     (case fetch_person w name of
        Raises e \<Rightarrow> Returns (Failure e)
      | Returns data \<Rightarrow> Returns data)"

section \<open>\<open>process_person\<close>\<close>

text \<open>
  A roster record (one line of the input table) is a dictionary from column names to
  cells, the cells read as text. The result of \<open>process_person\<close> is a dictionary too;
  its values are cells, but for the list of events under the key \<open>Events\<close>.
\<close>

datatype pyval = Str string | EventList "life_event list"

type_synonym pydict = "(string \<times> pyval) list"

text \<open>\<open>person.get(k, '')\<close>\<close>

definition get_cell :: "(string \<times> string) list \<Rightarrow> string \<Rightarrow> string" where
  "get_cell person k = (case map_of person k of None \<Rightarrow> [] | Some v \<Rightarrow> v)"

text \<open>\<open>data.get('url', '')\<close> and the like.\<close>

fun data_url :: "person_data \<Rightarrow> string" where
  "data_url (Failure e) = []"
| "data_url (Success summary infobox events url) = url"

fun data_summary :: "person_data \<Rightarrow> string" where
  "data_summary (Failure e) = []"
| "data_summary (Success summary infobox events url) = summary"

fun data_error :: "person_data \<Rightarrow> string" where
  "data_error (Failure e) = e"
| "data_error (Success summary infobox events url) = []"

fun data_infobox :: "person_data \<Rightarrow> infobox" where
  "data_infobox (Failure e) = []"
| "data_infobox (Success summary infobox events url) = infobox"

fun data_events :: "person_data \<Rightarrow> life_event list" where
  "data_events (Failure e) = []"
| "data_events (Success summary infobox events url) = events"

definition base_fields :: "(string \<times> string) list \<Rightarrow> person_data \<Rightarrow> pydict" where
  "base_fields person data =
     [(''Name'', Str (get_cell person ''Name'')),
      (''Gender'', Str (get_cell person ''Gender'')),
      (''Birth_Date'', Str (get_cell person ''Day'' @ ''/'' @ get_cell person ''Month''
                             @ ''/'' @ get_cell person ''Year'')),
      (''Birth_Time'', Str (get_cell person ''Time'')),
      (''Birth_Location'', Str (get_cell person ''Location'')),
      (''Latitude'', Str (get_cell person ''Latitude'')),
      (''Longitude'', Str (get_cell person ''Longitude'')),
      (''Time_Zone'', Str (get_cell person ''Time Zone'')),
      (''Wikipedia_URL'', Str (data_url data)),
      (''Summary'', Str (data_summary data)),
      (''Error'', Str (data_error data))]"

text \<open>The loop \<open>result[f"Infobox_{key}"] = value\<close> over the items of the infobox.\<close>

fun add_infobox :: "pydict \<Rightarrow> infobox \<Rightarrow> pydict" where
  "add_infobox result [] = result"
| "add_infobox result ((key, value) # items) =
     add_infobox (AList.update (''Infobox_'' @ key) (Str value) result) items"

definition person_result :: "(string \<times> string) list \<Rightarrow> person_data \<Rightarrow> pydict" where
  "person_result person data =
     AList.update ''Events'' (EventList (data_events data))
       (add_infobox (base_fields person data) (data_infobox data))"

text \<open>
  \<open>person['Name']\<close> raises \<open>KeyError\<close> on a record without that column, before the
  \<open>try\<close> of \<open>get_person_data\<close> is entered; the message of that error is the quoted key.
\<close>

definition process_person :: "world \<Rightarrow> (string \<times> string) list \<Rightarrow> pydict outcome" where
  "process_person w person =
     (case map_of person ''Name'' of
        None \<Rightarrow> Raises (CHR 0x27 # ''Name'' @ [CHR 0x27])
      | Some name \<Rightarrow>
          (case get_person_data w name of
             Raises e \<Rightarrow> Raises e
           | Returns data \<Rightarrow> Returns (person_result person data)))"

section \<open>\<open>main\<close>\<close>

subsection \<open>The loop over the completed tasks\<close>





subsection \<open>Expanding the events into rows\<close>








section \<open>Notions for stating the properties of the loop\<close>






section \<open>Notions for stating the properties of the infobox\<close>

text \<open>The rows that the loop over the infobox table visits.\<close>

definition table_rows :: "node \<Rightarrow> node list" where
  "table_rows infobox_table = find_all_tags (\<lambda>t. has_name t ''tr'') (contents infobox_table)"

text \<open>
  The pair that one row contributes: the cleaned texts of its header cell and its data
  cell, when the row has both and neither cleaned text is empty.
\<close>

definition row_pair :: "node \<Rightarrow> (string \<times> string) option" where
  "row_pair row =
     (case (first_named ''th'' row, first_named ''td'' row) of
        (Some th, Some td) \<Rightarrow>
          (let key = clean_text (get_text th);
               value = clean_text (get_text td)
           in if key \<noteq> [] \<and> value \<noteq> [] then Some (key, value) else None)
      | _ \<Rightarrow> None)"

section \<open>Sample inputs\<close>

text \<open>
  A world in which every call returns: the page exists, its summary has a doubled space
  and a citation marker, and the markup parses to \<open>career_family_doc\<close>.
\<close>

definition sample_summary :: string where
  "sample_summary = ''Ada  Lovelace[1] was a mathematician.''"

definition sample_world :: world where
  "sample_world =
     \<lparr>page_exists = (\<lambda>title. Returns True),
      page_summary = (\<lambda>title. Returns sample_summary),
      session_get = (\<lambda>url. Returns \<lparr>status_code = 200, response_text = ''<html></html>''\<rparr>),
      html_parser = (\<lambda>markup. Returns career_family_doc)\<rparr>"

text \<open>Worlds in which one call fails, and one in which the markup comes with status 404.\<close>

definition missing_world :: world where
  "missing_world = sample_world\<lparr>page_exists := (\<lambda>title. Returns False)\<rparr>"

definition lookup_fault_world :: world where
  "lookup_fault_world = sample_world\<lparr>page_exists := (\<lambda>title. Raises ''Connection refused'')\<rparr>"

definition timeout_world :: world where
  "timeout_world = sample_world\<lparr>session_get := (\<lambda>url. Raises ''Read timed out.'')\<rparr>"

definition parser_fault_world :: world where
  "parser_fault_world = sample_world\<lparr>html_parser := (\<lambda>markup. Raises ''bad markup'')\<rparr>"

definition summary_fault_world :: world where
  "summary_fault_world = sample_world\<lparr>page_summary := (\<lambda>title. Raises ''Server error'')\<rparr>"

definition not_found_status_world :: world where
  "not_found_status_world =
     sample_world\<lparr>session_get :=
       (\<lambda>url. Returns \<lparr>status_code = 404, response_text = ''<html></html>''\<rparr>)\<rparr>"

text \<open>
  A document with two infobox tables. The first has two rows with the label \<open>Born\<close>, a
  row without a data cell and a row whose data cell cleans to nothing.
\<close>

definition cell :: "string \<Rightarrow> string \<Rightarrow> node" where
  "cell n s = Tag n [] [NavigableString s]"

definition first_infobox :: node where
  "first_infobox =
     Tag ''table'' [''infobox'', ''vcard'']
       [Tag ''tr'' [] [cell ''th'' ''Born'', cell ''td'' ''1815[1]''],
        Tag ''tr'' [] [cell ''th'' ''Known  for'', cell ''td'' '' Mathematics ''],
        Tag ''tr'' [] [cell ''th'' ''Only header''],
        Tag ''tr'' [] [cell ''th'' ''Died'', cell ''td'' ''[2]''],
        Tag ''tr'' [] [cell ''th'' ''Born'', cell ''td'' ''London'']]"

definition second_infobox :: node where
  "second_infobox =
     Tag ''table'' [''infobox''] [Tag ''tr'' [] [cell ''th'' ''Other'', cell ''td'' ''ignored'']]"

definition infobox_doc :: soup where
  "infobox_doc = [first_infobox, second_infobox]"








section \<open>Properties of the section extractor\<close>

lemma keyword_loop_select:
  "keyword_loop soup n kws events =
     (case select_heading soup kws of
        None \<Rightarrow> events
      | Some (h, later) \<Rightarrow>
          if collect_paragraphs [] (find_next_siblings later) \<noteq> []
          then events @ [\<lparr>ev_type = n, ev_content = section_text later\<rparr>]
          else events)"
  by (induction kws) (auto simp: section_text_def Let_def split: option.splits)

lemma keyword_loop_append:
  "keyword_loop soup n kws events = events @ keyword_loop soup n kws []"
  by (simp add: keyword_loop_select split: option.splits)

text \<open>
  No turn of the loop over the categories reads what the earlier turns appended: the
  events are the per-category events, one category after the other.
\<close>

lemma section_loop_concat:
  "section_loop soup secs events = events @ concat (map (section_event soup) secs)"
proof (induction secs arbitrary: events)
  case Nil
  then show ?case by simp
next
  case (Cons sec secs)
  obtain n kws where sec: "sec = (n, kws)" by (cases sec)
  show ?case
    using Cons[of "keyword_loop soup n kws events"] keyword_loop_append[of soup n kws events]
    by (simp add: sec section_event_def)
qed

lemma extract_events_concat:
  "extract_events soup = concat (map (section_event soup) sections)"
  by (simp add: extract_events_def section_loop_concat)

lemma section_event_cases:
  "section_event soup sec = [] \<or>
   (\<exists>c. section_event soup sec = [\<lparr>ev_type = fst sec, ev_content = c\<rparr>])"
  by (simp add: section_event_def keyword_loop_select split: option.splits)

lemma types_subseq:
  "subseq (map ev_type (concat (map (section_event soup) secs))) (map fst secs)"
proof (induction secs)
  case Nil
  then show ?case by simp
next
  case (Cons sec secs)
  from section_event_cases[of soup sec] show ?case
  proof
    assume "section_event soup sec = []"
    with Cons show ?thesis by (simp add: list_emb_Cons)
  next
    assume "\<exists>c. section_event soup sec = [\<lparr>ev_type = fst sec, ev_content = c\<rparr>]"
    with Cons show ?thesis by auto
  qed
qed

lemma extract_events_subseq:
  "subseq (map ev_type (extract_events soup)) (map fst sections)"
  by (simp add: extract_events_concat types_subseq)

lemma filter_distinct_le_1:
  "distinct (map f xs) \<Longrightarrow> length (filter (\<lambda>e. f e = c) xs) \<le> Suc 0"
proof (induction xs)
  case Nil
  then show ?case by simp
next
  case (Cons a xs)
  show ?case
  proof (cases "f a = c")
    case True
    with Cons.prems have "\<forall>e\<in>set xs. f e \<noteq> c"
      by (metis distinct.simps(2) image_eqI list.simps(9) set_map)
    then have "filter (\<lambda>e. f e = c) xs = []" by (simp add: filter_empty_conv)
    with True show ?thesis by simp
  next
    case False
    with Cons show ?thesis by simp
  qed
qed

text \<open>
  C7. For every document the section extractor emits at most five events, and at most
  one event of each category: the categories of the events are pairwise different, so
  no category has more than one event.
\<close>

theorem extract_events_at_most_one_per_category:
  "length (extract_events soup) \<le> 5
   \<and> distinct (map ev_type (extract_events soup))
   \<and> (\<forall>c. length (filter (\<lambda>e. ev_type e = c) (extract_events soup)) \<le> 1)"
proof -
  let ?es = "extract_events soup"
  have s: "subseq (map ev_type ?es) (map fst sections)" by (rule extract_events_subseq)
  then have "length (map ev_type ?es) \<le> length (map fst sections)"
    by (rule list_emb_length)
  then have l: "length ?es \<le> 5" by (simp add: sections_def)
  have "distinct (map fst sections)" by (simp add: sections_def)
  with s have d: "distinct (map ev_type ?es)"
    by (metis in_set_subseqs subseqs_distinctD)
  from l d show ?thesis using filter_distinct_le_1[OF d] by simp
qed

theorem extract_events_at_most_one_per_category_witness:
  "length (extract_events career_family_doc) \<le> 5
   \<and> distinct (map ev_type (extract_events career_family_doc))
   \<and> (\<forall>c. length (filter (\<lambda>e. ev_type e = c) (extract_events career_family_doc)) \<le> 1)"
  using extract_events_at_most_one_per_category[of career_family_doc] by simp

text \<open>
  C1, as stated, fails. In the document \<open>career_family_doc\<close> the only heading contains
  the keyword \<open>career\<close> of the category Career and the keyword \<open>family\<close> of the category
  Personal Life; it is the heading found for either keyword, and the extractor emits an
  event with the paragraph behind it under both categories.
\<close>

theorem heading_of_two_categories_counterexample:
  "find_all_tags is_heading career_family_doc = [career_family_heading]
   \<and> find_tag (heading_matches ''career'') career_family_doc
       = Some (career_family_heading, [career_family_paragraph])
   \<and> find_tag (heading_matches ''family'') career_family_doc
       = Some (career_family_heading, [career_family_paragraph])
   \<and> extract_events career_family_doc
       = [\<lparr>ev_type = ''Career'', ev_content = ''Worked hard.''\<rparr>,
          \<lparr>ev_type = ''Personal Life'', ev_content = ''Worked hard.''\<rparr>]"
  by code_simp

text \<open>
  C1, amended. Every category selects its heading on its own, whatever the categories
  before it selected. When the heading selected for two categories is the same element
  and the paragraphs behind it leave some cleaned text, the extractor emits an event
  with that text under each of the two categories; the events stand in the order of the
  fixed category list.
\<close>

theorem heading_of_two_categories:
  assumes "(c1, k1) \<in> set sections" and "(c2, k2) \<in> set sections"
    and "select_heading soup k1 = Some (h, later)"
    and "select_heading soup k2 = Some (h, later)"
    and "collect_paragraphs [] (find_next_siblings later) \<noteq> []"
  shows "\<lparr>ev_type = c1, ev_content = section_text later\<rparr> \<in> set (extract_events soup)
         \<and> \<lparr>ev_type = c2, ev_content = section_text later\<rparr> \<in> set (extract_events soup)
         \<and> subseq (map ev_type (extract_events soup)) (map fst sections)"
proof -
  have e: "section_event soup (c, k) = [\<lparr>ev_type = c, ev_content = section_text later\<rparr>]"
    if "select_heading soup k = Some (h, later)" for c k
    using that assms(5) by (simp add: section_event_def keyword_loop_select)
  have m: "\<lparr>ev_type = c, ev_content = section_text later\<rparr> \<in> set (extract_events soup)"
    if "(c, k) \<in> set sections" and "select_heading soup k = Some (h, later)" for c k
  proof -
    have "\<lparr>ev_type = c, ev_content = section_text later\<rparr> \<in> set (section_event soup (c, k))"
      using e[OF that(2)] by simp
    with that(1) show ?thesis
      unfolding extract_events_concat by (simp only: set_concat set_map) blast
  qed
  show ?thesis
    using m[OF assms(1) assms(3)] m[OF assms(2) assms(4)] extract_events_subseq by simp
qed

theorem heading_of_two_categories_witness:
  "(''Career'', [''career'', ''professional'', ''work'']) \<in> set sections
   \<and> (''Personal Life'', [''personal life'', ''relationships'', ''family'']) \<in> set sections
   \<and> select_heading career_family_doc [''career'', ''professional'', ''work'']
       = Some (career_family_heading, [career_family_paragraph])
   \<and> select_heading career_family_doc [''personal life'', ''relationships'', ''family'']
       = Some (career_family_heading, [career_family_paragraph])
   \<and> collect_paragraphs [] (find_next_siblings [career_family_paragraph]) \<noteq> []
   \<and> \<lparr>ev_type = ''Career'', ev_content = section_text [career_family_paragraph]\<rparr>
       \<in> set (extract_events career_family_doc)
   \<and> \<lparr>ev_type = ''Personal Life'', ev_content = section_text [career_family_paragraph]\<rparr>
       \<in> set (extract_events career_family_doc)
   \<and> subseq (map ev_type (extract_events career_family_doc)) (map fst sections)"
proof -
  have h1: "(''Career'', [''career'', ''professional'', ''work'']) \<in> set sections"
    by (simp add: sections_def)
  have h2: "(''Personal Life'', [''personal life'', ''relationships'', ''family'']) \<in> set sections"
    by (simp add: sections_def)
  have h3: "select_heading career_family_doc [''career'', ''professional'', ''work'']
              = Some (career_family_heading, [career_family_paragraph])"
    by code_simp
  have h4: "select_heading career_family_doc [''personal life'', ''relationships'', ''family'']
              = Some (career_family_heading, [career_family_paragraph])"
    by code_simp
  have h5: "collect_paragraphs [] (find_next_siblings [career_family_paragraph]) \<noteq> []"
    by code_simp
  show ?thesis
    using heading_of_two_categories[OF h1 h2 h3 h4 h5] h1 h2 h3 h4 h5 by simp
qed

section \<open>Properties of \<open>clean_text\<close>\<close>

lemma not_digit_brackets [simp]: "\<not> is_digit CHR '']''" "\<not> is_digit CHR ''[''" "\<not> is_digit CHR '' ''"
  by (simp_all add: is_digit_def)

lemma space_is_space [simp]: "is_space CHR '' ''"
  by (simp add: is_space_def)

lemma match_citationD:
  assumes m: "match_citation s = Some rest"
  shows "\<exists>ds. s = CHR ''['' # ds @ CHR '']'' # rest \<and> ds \<noteq> [] \<and> (\<forall>d\<in>set ds. is_digit d)"
proof -
  from m obtain c cs where s: "s = c # cs"
    by (cases s) (simp_all add: match_citation_def)
  from m s have c: "c = CHR ''[''" and t: "takeWhile is_digit cs \<noteq> []"
    by (simp_all add: match_citation_def split: if_splits)
  from m s c t obtain d r where dw: "dropWhile is_digit cs = d # r"
    by (cases "dropWhile is_digit cs") (simp_all add: match_citation_def)
  from m s c t dw have d: "d = CHR '']''" and r: "r = rest"
    by (simp_all add: match_citation_def split: if_splits)
  have e: "takeWhile is_digit cs @ CHR '']'' # rest = cs"
    using takeWhile_dropWhile_id[of is_digit cs] unfolding dw d r .
  have "s = CHR ''['' # takeWhile is_digit cs @ CHR '']'' # rest"
    by (subst e) (simp only: s c)
  moreover have "\<forall>d\<in>set (takeWhile is_digit cs). is_digit d"
    by (auto dest: set_takeWhileD)
  ultimately show ?thesis
    using t by (intro exI[of _ "takeWhile is_digit cs"] conjI)
qed

lemma match_citationI:
  assumes n: "ds \<noteq> []" and a: "\<forall>d\<in>set ds. is_digit d"
  shows "match_citation (CHR ''['' # ds @ CHR '']'' # rest) = Some rest"
proof -
  have "takeWhile is_digit (ds @ CHR '']'' # rest) = ds" using a by simp
  moreover have "dropWhile is_digit (ds @ CHR '']'' # rest) = CHR '']'' # rest" using a by simp
  ultimately show ?thesis
    using n by (simp add: match_citation_def)
qed

lemma has_citation_iff:
  "has_citation s \<longleftrightarrow> (\<exists>p q. s = p @ q \<and> match_citation q \<noteq> None)"
proof (induction s)
  case Nil
  then show ?case by (simp add: match_citation_def)
next
  case (Cons c cs)
  show ?case
  proof
    assume "has_citation (c # cs)"
    then consider "match_citation (c # cs) \<noteq> None" | "has_citation cs" by auto
    then show "\<exists>p q. c # cs = p @ q \<and> match_citation q \<noteq> None"
    proof cases
      case 1
      then show ?thesis by (metis append_Nil)
    next
      case 2
      with Cons obtain p q where "cs = p @ q" "match_citation q \<noteq> None" by blast
      then show ?thesis by (metis append_Cons)
    qed
  next
    assume "\<exists>p q. c # cs = p @ q \<and> match_citation q \<noteq> None"
    then obtain p q where pq: "c # cs = p @ q" and m: "match_citation q \<noteq> None" by blast
    show "has_citation (c # cs)"
    proof (cases p)
      case Nil
      with pq have "q = c # cs" by simp
      with m show ?thesis by simp
    next
      case (Cons a p')
      with pq have "cs = p' @ q" by simp
      with m Cons.IH show ?thesis by auto
    qed
  qed
qed

lemma match_citation_append:
  "match_citation q \<noteq> None \<Longrightarrow> match_citation (q @ r) \<noteq> None"
proof -
  assume "match_citation q \<noteq> None"
  then obtain rest where "match_citation q = Some rest" by blast
  from match_citationD[OF this]
  obtain ds where q: "q = CHR ''['' # ds @ CHR '']'' # rest" and n: "ds \<noteq> []"
    and a: "\<forall>d\<in>set ds. is_digit d"
    by blast
  have "match_citation (CHR ''['' # ds @ CHR '']'' # (rest @ r)) = Some (rest @ r)"
    using n a by (rule match_citationI)
  then show ?thesis using q by simp
qed

lemma has_citation_sublist:
  assumes "has_citation s" and "sublist s t"
  shows "has_citation t"
proof -
  from assms(1) obtain p q where s: "s = p @ q" and m: "match_citation q \<noteq> None"
    using has_citation_iff by blast
  from assms(2) obtain l r where t: "t = l @ s @ r" by (auto simp: sublist_def)
  have "t = (l @ p) @ (q @ r)" using s t by simp
  moreover have "match_citation (q @ r) \<noteq> None" using m by (rule match_citation_append)
  ultimately show ?thesis using has_citation_iff by blast
qed

lemma has_nested_open_suffix: "has_nested_open q \<Longrightarrow> has_nested_open (p @ q)"
  by (induction p) auto

lemma sub_citations_digits:
  assumes "sub_citations cs = ds @ x # q" and "\<forall>d\<in>set ds. is_digit d" and "\<not> is_digit x" and "x \<noteq> CHR ''[''"
  shows "(\<exists>q'. cs = ds @ x # q') \<or> (\<exists>ds' r. cs = ds' @ CHR ''['' # r \<and> (\<forall>d\<in>set ds'. is_digit d))"
  using assms
proof (induction ds arbitrary: cs)
  case Nil
  then obtain a cs' where cs: "cs = a # cs'" by (cases cs) auto
  show ?case
  proof (cases "a = CHR ''[''")
    case True
    then have "cs = [] @ CHR ''['' # cs'" using cs by simp
    then show ?thesis by (metis empty_iff list.set(1))
  next
    case False
    then have "match_citation (a # cs') = None" by (simp add: match_citation_def)
    with Nil cs show ?thesis by simp
  qed
next
  case (Cons d ds)
  then obtain a cs' where cs: "cs = a # cs'" by (cases cs) auto
  show ?case
  proof (cases "a = CHR ''[''")
    case True
    then have "cs = [] @ CHR ''['' # cs'" using cs by simp
    then show ?thesis by (metis empty_iff list.set(1))
  next
    case False
    then have "match_citation (a # cs') = None" by (simp add: match_citation_def)
    with Cons.prems cs have a: "a = d" and r: "sub_citations cs' = ds @ x # q" by simp_all
    from Cons.IH[OF r] Cons.prems
    consider q' where "cs' = ds @ x # q'" | ds' r where "cs' = ds' @ CHR ''['' # r" "\<forall>d\<in>set ds'. is_digit d"
      by auto
    then show ?thesis
    proof cases
      case 1
      then show ?thesis using cs a by simp
    next
      case 2
      then have "cs = (d # ds') @ CHR ''['' # r \<and> (\<forall>e\<in>set (d # ds'). is_digit e)"
        using cs a Cons.prems by simp
      then show ?thesis by blast
    qed
  qed
qed

lemma sub_citations_no_citation:
  "\<not> has_nested_open t \<Longrightarrow> \<not> has_citation (sub_citations t)"
proof (induction t rule: sub_citations.induct)
  case 1
  then show ?case by simp
next
  case (2 c cs)
  show ?case
  proof (cases "match_citation (c # cs)")
    case (Some rest)
    from match_citationD[OF this]
    obtain ds where "c # cs = (CHR ''['' # ds @ [CHR '']'']) @ rest"
      by auto
    then have "\<not> has_nested_open rest"
      using "2.prems" has_nested_open_suffix by metis
    with "2.IH"(2)[OF Some] Some show ?thesis by simp
  next
    case None
    from "2.prems" have "\<not> has_nested_open cs" by simp
    with "2.IH"(1)[OF None] have ih: "\<not> has_citation (sub_citations cs)" by simp
    have "match_citation (c # sub_citations cs) = None"
    proof (rule ccontr)
      assume "match_citation (c # sub_citations cs) \<noteq> None"
      then obtain rest where "match_citation (c # sub_citations cs) = Some rest" by blast
      from match_citationD[OF this]
      obtain ds where c: "c = CHR ''[''" and sc: "sub_citations cs = ds @ CHR '']'' # rest"
        and n: "ds \<noteq> []" and a: "\<forall>d\<in>set ds. is_digit d"
        by auto
      from sub_citations_digits[OF sc a]
      consider q' where "cs = ds @ CHR '']'' # q'"
        | ds' r where "cs = ds' @ CHR ''['' # r" "\<forall>d\<in>set ds'. is_digit d"
        by auto
      then show False
      proof cases
        case 1
        then have "match_citation (c # cs) = Some q'"
          using c match_citationI[OF n a] by simp
        with None show False by simp
      next
        case 2
        then have "dropWhile is_digit cs = CHR ''['' # r" by simp
        with c "2.prems" show False by simp
      qed
    qed
    with ih None show ?thesis by simp
  qed
qed

lemma has_double_space_Cons:
  "has_double_space (a # ys) = ((is_space a \<and> ys \<noteq> [] \<and> is_space (hd ys)) \<or> has_double_space ys)"
  by (cases ys) auto

lemma has_double_space_append_right: "has_double_space xs \<Longrightarrow> has_double_space (xs @ r)"
  by (induction xs rule: has_double_space.induct) auto

lemma has_double_space_append_left: "has_double_space xs \<Longrightarrow> has_double_space (l @ xs)"
  by (induction l) (auto simp: has_double_space_Cons)

lemma has_double_space_sublist:
  assumes "has_double_space s" and "sublist s t"
  shows "has_double_space t"
proof -
  from assms(2) obtain l r where "t = l @ s @ r" by (auto simp: sublist_def)
  with assms(1) show ?thesis
    by (simp add: has_double_space_append_left has_double_space_append_right)
qed

lemma sub_spaces_Nil_iff: "sub_spaces s = [] \<longleftrightarrow> s = []"
  by (cases s) auto

lemma sub_spaces_hd: "s \<noteq> [] \<Longrightarrow> \<not> is_space (hd s) \<Longrightarrow> hd (sub_spaces s) = hd s"
  by (cases s) auto

lemma sub_spaces_no_double_space: "\<not> has_double_space (sub_spaces s)"
proof (induction s rule: sub_spaces.induct)
  case 1
  then show ?case by simp
next
  case (2 c cs)
  show ?case
  proof (cases "is_space c")
    case True
    let ?d = "dropWhile is_space cs"
    have "sub_spaces ?d = [] \<or> \<not> is_space (hd (sub_spaces ?d))"
    proof (cases "?d = []")
      case True
      then have "sub_spaces ?d = []" by (simp only: sub_spaces.simps(1))
      then show ?thesis by (rule disjI1)
    next
      case False
      then have "\<not> is_space (hd ?d)" by (rule hd_dropWhile)
      with False show ?thesis by (simp add: sub_spaces_hd)
    qed
    with True "2.IH"(1) show ?thesis by (auto simp: has_double_space_Cons)
  next
    case False
    with "2.IH"(2) show ?thesis by (simp add: has_double_space_Cons)
  qed
qed

lemma strip_sublist: "sublist (strip s) s"
proof -
  have "sublist (rev (dropWhile is_space (rev (dropWhile is_space s)))) (dropWhile is_space s)"
    by (simp add: sublist_rev_left)
  moreover have "sublist (dropWhile is_space s) s" by simp
  ultimately show ?thesis unfolding strip_def by (rule sublist_order.order_trans)
qed

lemma clean_text_sublist: "sublist (clean_text t) (sub_spaces (sub_citations t))"
proof (cases "t = []")
  case True
  then show ?thesis by (simp add: clean_text_def)
next
  case False
  have "sublist (take 2000 (strip (sub_spaces (sub_citations t)))) (strip (sub_spaces (sub_citations t)))"
    by simp
  then have "sublist (take 2000 (strip (sub_spaces (sub_citations t)))) (sub_spaces (sub_citations t))"
    using strip_sublist by (rule sublist_order.order_trans)
  with False show ?thesis by (simp add: clean_text_def)
qed

lemma clean_text_no_double_space: "\<not> has_double_space (clean_text t)"
  using has_double_space_sublist[OF _ clean_text_sublist] sub_spaces_no_double_space by blast

lemma sub_spaces_nonspace_prefix:
  assumes "sub_spaces cs = ds @ x # q" and "\<forall>d\<in>set ds. \<not> is_space d \<and> d \<noteq> CHR '' ''"
    and "\<not> is_space x" and "x \<noteq> CHR '' ''"
  shows "\<exists>q'. cs = ds @ x # q'"
  using assms
proof (induction ds arbitrary: cs)
  case Nil
  then obtain a cs' where cs: "cs = a # cs'" by (cases cs) auto
  with Nil show ?case by (auto split: if_splits)
next
  case (Cons d ds)
  then obtain a cs' where cs: "cs = a # cs'" by (cases cs) auto
  with Cons.prems have a: "a = d" and r: "sub_spaces cs' = ds @ x # q"
    by (auto split: if_splits)
  from Cons.IH[OF r] Cons.prems obtain q' where "cs' = ds @ x # q'" by auto
  with cs a show ?case by simp
qed

lemma digit_not_space: "is_digit d \<Longrightarrow> \<not> is_space d \<and> d \<noteq> CHR '' ''"
  by (auto simp: is_digit_def is_space_def Let_def)

lemma bracket_not_space [simp]: "\<not> is_space CHR '']''" "\<not> is_space CHR ''[''"
  by (simp_all add: is_space_def)

lemma sub_spaces_citation: "has_citation (sub_spaces s) \<Longrightarrow> has_citation s"
proof (induction s rule: sub_spaces.induct)
  case 1
  then show ?case by simp
next
  case (2 c cs)
  show ?case
  proof (cases "is_space c")
    case True
    with "2.prems" have "has_citation (sub_spaces (dropWhile is_space cs))"
      by (simp add: match_citation_def)
    with "2.IH"(1)[OF True] have "has_citation (dropWhile is_space cs)" by simp
    then have "has_citation cs"
      by (rule has_citation_sublist) simp
    then show ?thesis by simp
  next
    case False
    with "2.prems" consider "match_citation (c # sub_spaces cs) \<noteq> None" | "has_citation (sub_spaces cs)"
      by auto
    then show ?thesis
    proof cases
      case 1
      then obtain rest where "match_citation (c # sub_spaces cs) = Some rest" by blast
      from match_citationD[OF this]
      obtain ds where c: "c = CHR ''[''" and sc: "sub_spaces cs = ds @ CHR '']'' # rest"
        and n: "ds \<noteq> []" and a: "\<forall>d\<in>set ds. is_digit d"
        by auto
      from a have "\<forall>d\<in>set ds. \<not> is_space d \<and> d \<noteq> CHR '' ''"
        using digit_not_space by blast
      from sub_spaces_nonspace_prefix[OF sc this] obtain q' where "cs = ds @ CHR '']'' # q'"
        by auto
      then have "match_citation (c # cs) = Some q'"
        using c match_citationI[OF n a] by simp
      then show ?thesis by simp
    next
      case 2
      with "2.IH"(2)[OF False] show ?thesis by simp
    qed
  qed
qed

lemma clean_text_no_citation:
  assumes "\<not> has_nested_open t"
  shows "\<not> has_citation (clean_text t)"
proof
  assume "has_citation (clean_text t)"
  then have "has_citation (sub_spaces (sub_citations t))"
    using clean_text_sublist by (rule has_citation_sublist)
  then have "has_citation (sub_citations t)" by (rule sub_spaces_citation)
  with sub_citations_no_citation[OF assms] show False by simp
qed

lemma clean_text_length: "length (clean_text t) \<le> 2000"
  by (simp add: clean_text_def)

section \<open>Properties of \<open>get_person_data\<close>\<close>

lemma get_person_data_Success:
  assumes "get_person_data w name = Returns (Success summary infobox events url)"
  shows "\<exists>response soup raw.
           page_exists w (replace_spaces name) = Returns True
           \<and> session_get w (wiki_url name) = Returns response
           \<and> html_parser w (response_text response) = Returns soup
           \<and> page_summary w (replace_spaces name) = Returns raw
           \<and> summary = take 3000 raw
           \<and> infobox = extract_infobox soup
           \<and> events = extract_events soup
           \<and> url = wiki_url name"
  using assms
  by (auto simp: get_person_data_def fetch_person_def Let_def split: outcome.splits if_splits)

lemma section_event_content:
  "e \<in> set (section_event soup sec) \<Longrightarrow> length (ev_content e) \<le> 3000"
  by (auto simp: section_event_def keyword_loop_select section_text_def
           split: option.splits if_splits)

lemma extract_events_content:
  "e \<in> set (extract_events soup) \<Longrightarrow> length (ev_content e) \<le> 3000"
  unfolding extract_events_concat using section_event_content by auto

text \<open>
  C5, as stated, fails in its last part. The citation markers are removed in one scan
  from the left, and what stands around a removed marker can close up to a new one: the
  cleaned text of \<open>[[1]2]\<close> is \<open>[2]\<close>.
\<close>

theorem clean_text_citation_counterexample:
  "clean_text ''[[1]2]'' = ''[2]'' \<and> has_citation (clean_text ''[[1]2]'')"
  by code_simp

text \<open>
  C5, amended. The stored summary and the content of every emitted event have at most
  3000 characters; a cleaned text never has two whitespace characters in a row; and a
  cleaned text has no citation marker whenever the text given to \<open>clean_text\<close> has no two
  opening brackets with only digits (or nothing) between them.
\<close>

theorem summary_events_bounded_text_cleaned:
  "(get_person_data w name = Returns (Success summary infobox events url) \<longrightarrow>
      length summary \<le> 3000 \<and> (\<forall>e\<in>set events. length (ev_content e) \<le> 3000))
   \<and> \<not> has_double_space (clean_text t)
   \<and> (\<not> has_nested_open t \<longrightarrow> \<not> has_citation (clean_text t))"
proof (intro conjI impI)
  assume a: "get_person_data w name = Returns (Success summary infobox events url)"
  from get_person_data_Success[OF a] obtain soup raw
    where s: "summary = take 3000 raw" and e: "events = extract_events soup" by blast
  from s show "length summary \<le> 3000" by simp
  from e show "\<forall>e\<in>set events. length (ev_content e) \<le> 3000"
    using extract_events_content by blast
next
  show "\<not> has_double_space (clean_text t)" by (rule clean_text_no_double_space)
next
  assume "\<not> has_nested_open t"
  then show "\<not> has_citation (clean_text t)" by (rule clean_text_no_citation)
qed

theorem summary_events_bounded_text_cleaned_witness:
  "get_person_data sample_world ''Ada Lovelace''
     = Returns (Success sample_summary [] (extract_events career_family_doc)
                  ''https://en.wikipedia.org/wiki/Ada_Lovelace'')
   \<and> length sample_summary \<le> 3000
   \<and> length (ev_content (extract_events career_family_doc ! 0)) \<le> 3000
   \<and> length (ev_content (extract_events career_family_doc ! 1)) \<le> 3000
   \<and> \<not> has_double_space (clean_text ''a  b [12] c'')
   \<and> \<not> has_nested_open ''a  b [12] c''
   \<and> \<not> has_citation (clean_text ''a  b [12] c'')"
proof -
  have g: "get_person_data sample_world ''Ada Lovelace''
             = Returns (Success sample_summary [] (extract_events career_family_doc)
                          ''https://en.wikipedia.org/wiki/Ada_Lovelace'')"
    by code_simp
  have n: "\<not> has_nested_open ''a  b [12] c''"
    by code_simp
  have l: "length (extract_events career_family_doc) = 2"
    by code_simp
  from summary_events_bounded_text_cleaned
         [of sample_world "''Ada Lovelace''" sample_summary "[]"
             "extract_events career_family_doc"
             "''https://en.wikipedia.org/wiki/Ada_Lovelace''" "''a  b [12] c''"]
  show ?thesis using g n l by simp
qed

section \<open>Properties of the infobox\<close>

lemma find_tag_first:
  "map_option fst (find_tag P nodes) =
     (case find_all_tags P nodes of [] \<Rightarrow> None | t # others \<Rightarrow> Some t)"
proof (induction P nodes rule: find_tag.induct)
  case (1 P)
  then show ?case by simp
next
  case (2 P s xs)
  then show ?case by simp
next
  case (3 P n cl ch xs)
  show ?case
  proof (cases "P (Tag n cl ch)")
    case True
    then show ?thesis by simp
  next
    case False
    note ih = "3.IH"(1)[OF False]
    show ?thesis
    proof (cases "find_tag P ch")
      case None
      with ih have "find_all_tags P ch = []" by (simp split: list.splits)
      with False None "3.IH"(2)[OF False None] show ?thesis by simp
    next
      case (Some r)
      with ih obtain t others where "find_all_tags P ch = t # others" and "fst r = t"
        by (auto split: list.splits)
      with False Some show ?thesis by simp
    qed
  qed
qed

lemma infobox_rows_foldl:
  "infobox_rows infobox rows =
     foldl (\<lambda>d (k, v). AList.update k v d) infobox (List.map_filter row_pair rows)"
proof (induction rows arbitrary: infobox)
  case Nil
  then show ?case by (simp add: List.map_filter_simps)
next
  case (Cons row rows)
  show ?case
  proof (cases "row_pair row")
    case None
    then have "infobox_rows infobox (row # rows) = infobox_rows infobox rows"
      by (auto simp: row_pair_def Let_def split: option.splits if_splits)
    with None Cons show ?thesis by (simp add: List.map_filter_simps)
  next
    case (Some kv)
    obtain k v where kv: "kv = (k, v)" by (cases kv)
    with Some have "infobox_rows infobox (row # rows) = infobox_rows (AList.update k v infobox) rows"
      by (auto simp: row_pair_def Let_def split: option.splits if_splits)
    with Some kv Cons show ?thesis by (simp add: List.map_filter_simps)
  qed
qed

lemma map_of_foldl_update:
  "map_of (foldl (\<lambda>d (k, v). AList.update k v d) al qs) = map_of (rev qs @ al)"
proof (induction qs arbitrary: al)
  case Nil
  then show ?case by simp
next
  case (Cons q qs)
  obtain k v where q: "q = (k, v)" by (cases q)
  have "map_of (rev qs @ AList.update k v al) = map_of (rev qs @ (k, v) # al)"
    by (simp add: map_of_append update_conv')
  with Cons[of "AList.update k v al"] q show ?case by simp
qed

lemma keys_foldl_update:
  "fst ` set (foldl (\<lambda>d (k, v). AList.update k v d) al qs) = fst ` set qs \<union> fst ` set al"
proof (induction qs arbitrary: al)
  case Nil
  then show ?case by simp
next
  case (Cons q qs)
  obtain k v where q: "q = (k, v)" by (cases q)
  from Cons[of "AList.update k v al"] q show ?case
    by (simp add: dom_update)
qed

lemma distinct_foldl_update:
  "distinct (map fst al) \<Longrightarrow> distinct (map fst (foldl (\<lambda>d (k, v). AList.update k v d) al qs))"
proof (induction qs arbitrary: al)
  case Nil
  then show ?case by simp
next
  case (Cons q qs)
  obtain k v where q: "q = (k, v)" by (cases q)
  from Cons.prems have "distinct (map fst (AList.update k v al))" by (rule distinct_update)
  from Cons.IH[OF this] q show ?case by simp
qed

lemma extract_infobox_first:
  "extract_infobox soup =
     (case find_all_tags is_infobox_table soup of
        [] \<Rightarrow> []
      | infobox_table # others \<Rightarrow> infobox_rows [] (table_rows infobox_table))"
proof (cases "find_tag is_infobox_table soup")
  case None
  with find_tag_first[of is_infobox_table soup] show ?thesis
    by (simp add: extract_infobox_def split: list.splits)
next
  case (Some r)
  obtain t later where r: "r = (t, later)" by (cases r)
  with Some find_tag_first[of is_infobox_table soup] show ?thesis
    by (simp add: extract_infobox_def table_rows_def split: list.splits)
qed

lemma row_pair_Some:
  "row_pair row = Some (k, v) \<longleftrightarrow>
     (\<exists>th td. first_named ''th'' row = Some th \<and> first_named ''td'' row = Some td
        \<and> clean_text (get_text th) = k \<and> clean_text (get_text td) = v \<and> k \<noteq> [] \<and> v \<noteq> [])"
  by (auto simp: row_pair_def Let_def split: option.splits if_splits)

lemma map_filter_set: "set (List.map_filter f xs) = {y. \<exists>x\<in>set xs. f x = Some y}"
  by (induction xs) (auto simp: List.map_filter_simps split: option.splits)

lemma infobox_pairs:
  "infobox_rows [] rows =
     foldl (\<lambda>d (k, v). AList.update k v d) [] (List.map_filter row_pair rows)"
  by (rule infobox_rows_foldl)

lemma map_of_infobox_rows:
  "map_of (infobox_rows [] rows) = map_of (rev (List.map_filter row_pair rows))"
  by (simp add: infobox_rows_foldl map_of_foldl_update)

lemma keys_infobox_rows:
  "fst ` set (infobox_rows [] rows) = fst ` set (List.map_filter row_pair rows)"
  by (simp add: infobox_rows_foldl keys_foldl_update)

lemma distinct_infobox_rows: "distinct (map fst (infobox_rows [] rows))"
  by (simp add: infobox_rows_foldl distinct_foldl_update)

lemma length_infobox_rows:
  "length (infobox_rows [] rows) = card (fst ` set (List.map_filter row_pair rows))"
proof -
  have "length (infobox_rows [] rows) = length (map fst (infobox_rows [] rows))" by simp
  also have "\<dots> = card (set (map fst (infobox_rows [] rows)))"
    using distinct_infobox_rows by (simp only: distinct_card)
  also have "\<dots> = card (fst ` set (List.map_filter row_pair rows))"
    by (simp add: keys_infobox_rows)
  finally show ?thesis .
qed

text \<open>
  C8. Only the first table in document order that is tagged as an infobox is used, in
  whatever comes behind it; the panel is what the loop over the rows of that table
  builds. Every entry of the panel comes from a row of that table with a header cell and
  a data cell, is the pair of their cleaned texts, and has neither of them empty; every
  such row with both cleaned texts non-empty has its label in the panel. A document
  without such a table gives the empty panel.
\<close>

theorem extract_infobox_first_table:
  "(find_all_tags is_infobox_table soup = [] \<longrightarrow> extract_infobox soup = [])
   \<and> (find_all_tags is_infobox_table soup = infobox_table # others \<longrightarrow>
        extract_infobox soup = infobox_rows [] (table_rows infobox_table)
        \<and> (\<forall>k v. map_of (extract_infobox soup) k = Some v \<longrightarrow>
              k \<noteq> [] \<and> v \<noteq> []
              \<and> (\<exists>row\<in>set (table_rows infobox_table). \<exists>th td.
                    first_named ''th'' row = Some th \<and> first_named ''td'' row = Some td
                    \<and> clean_text (get_text th) = k \<and> clean_text (get_text td) = v))
        \<and> (\<forall>row\<in>set (table_rows infobox_table). \<forall>th td.
              first_named ''th'' row = Some th \<and> first_named ''td'' row = Some td
              \<and> clean_text (get_text th) \<noteq> [] \<and> clean_text (get_text td) \<noteq> []
              \<longrightarrow> clean_text (get_text th) \<in> fst ` set (extract_infobox soup)))"
proof (intro conjI impI)
  assume "find_all_tags is_infobox_table soup = []"
  then show "extract_infobox soup = []" by (simp add: extract_infobox_first)
next
  assume a: "find_all_tags is_infobox_table soup = infobox_table # others"
  then show e: "extract_infobox soup = infobox_rows [] (table_rows infobox_table)"
    by (simp add: extract_infobox_first)
  let ?rows = "table_rows infobox_table"
  show "\<forall>k v. map_of (extract_infobox soup) k = Some v \<longrightarrow>
              k \<noteq> [] \<and> v \<noteq> []
              \<and> (\<exists>row\<in>set ?rows. \<exists>th td.
                    first_named ''th'' row = Some th \<and> first_named ''td'' row = Some td
                    \<and> clean_text (get_text th) = k \<and> clean_text (get_text td) = v)"
  proof (intro allI impI)
    fix k v
    assume "map_of (extract_infobox soup) k = Some v"
    then have "map_of (rev (List.map_filter row_pair ?rows)) k = Some v"
      by (simp add: e map_of_infobox_rows)
    then have "(k, v) \<in> set (List.map_filter row_pair ?rows)"
      using map_of_SomeD by fastforce
    then obtain row where r: "row \<in> set ?rows" and p: "row_pair row = Some (k, v)"
      by (auto simp: map_filter_set)
    from p obtain th td where "first_named ''th'' row = Some th" "first_named ''td'' row = Some td"
      "clean_text (get_text th) = k" "clean_text (get_text td) = v" "k \<noteq> []" "v \<noteq> []"
      unfolding row_pair_Some by blast
    with r show "k \<noteq> [] \<and> v \<noteq> []
              \<and> (\<exists>row\<in>set ?rows. \<exists>th td.
                    first_named ''th'' row = Some th \<and> first_named ''td'' row = Some td
                    \<and> clean_text (get_text th) = k \<and> clean_text (get_text td) = v)"
      by blast
  qed
  show "\<forall>row\<in>set ?rows. \<forall>th td.
              first_named ''th'' row = Some th \<and> first_named ''td'' row = Some td
              \<and> clean_text (get_text th) \<noteq> [] \<and> clean_text (get_text td) \<noteq> []
              \<longrightarrow> clean_text (get_text th) \<in> fst ` set (extract_infobox soup)"
  proof (intro ballI allI impI)
    fix row th td
    assume r: "row \<in> set ?rows"
      and c: "first_named ''th'' row = Some th \<and> first_named ''td'' row = Some td
              \<and> clean_text (get_text th) \<noteq> [] \<and> clean_text (get_text td) \<noteq> []"
    then have "row_pair row = Some (clean_text (get_text th), clean_text (get_text td))"
      unfolding row_pair_Some by blast
    with r have "(clean_text (get_text th), clean_text (get_text td))
                   \<in> set (List.map_filter row_pair ?rows)"
      by (auto simp: map_filter_set)
    then have "clean_text (get_text th) \<in> fst ` set (List.map_filter row_pair ?rows)"
      by force
    then show "clean_text (get_text th) \<in> fst ` set (extract_infobox soup)"
      by (simp add: e keys_infobox_rows)
  qed
qed

theorem extract_infobox_first_table_witness:
  "find_all_tags is_infobox_table career_family_doc = []
   \<and> extract_infobox career_family_doc = []
   \<and> find_all_tags is_infobox_table infobox_doc = [first_infobox, second_infobox]
   \<and> extract_infobox infobox_doc = [(''Born'', ''London''), (''Known for'', ''Mathematics'')]
   \<and> extract_infobox infobox_doc = infobox_rows [] (table_rows first_infobox)
   \<and> (\<exists>row\<in>set (table_rows first_infobox). \<exists>th td.
         first_named ''th'' row = Some th \<and> first_named ''td'' row = Some td
         \<and> clean_text (get_text th) = ''Born'' \<and> clean_text (get_text td) = ''London'')
   \<and> first_named ''th'' (table_rows first_infobox ! 1) = Some (cell ''th'' ''Known  for'')
   \<and> first_named ''td'' (table_rows first_infobox ! 1) = Some (cell ''td'' '' Mathematics '')
   \<and> ''Known for'' \<in> fst ` set (extract_infobox infobox_doc)"
proof -
  have n: "find_all_tags is_infobox_table career_family_doc = []"
    by code_simp
  have f: "find_all_tags is_infobox_table infobox_doc = [first_infobox, second_infobox]"
    by code_simp
  have x: "extract_infobox infobox_doc = [(''Born'', ''London''), (''Known for'', ''Mathematics'')]"
    by code_simp
  have m: "map_of (extract_infobox infobox_doc) ''Born'' = Some ''London''"
    by (simp add: x)
  have r: "table_rows first_infobox ! 1 \<in> set (table_rows first_infobox)"
    by code_simp
  have h: "first_named ''th'' (table_rows first_infobox ! 1) = Some (cell ''th'' ''Known  for'')"
    by code_simp
  have d: "first_named ''td'' (table_rows first_infobox ! 1) = Some (cell ''td'' '' Mathematics '')"
    by code_simp
  have k: "clean_text (get_text (cell ''th'' ''Known  for'')) = ''Known for''"
    by code_simp
  have v: "clean_text (get_text (cell ''td'' '' Mathematics '')) = ''Mathematics''"
    by code_simp
  have kn: "clean_text (get_text (cell ''th'' ''Known  for'')) \<noteq> []"
    by (simp add: k)
  have vn: "clean_text (get_text (cell ''td'' '' Mathematics '')) \<noteq> []"
    by (simp add: v)
  note a = extract_infobox_first_table[of career_family_doc first_infobox "[second_infobox]"]
  note b = extract_infobox_first_table[of infobox_doc first_infobox "[second_infobox]"]
  from a n have 1: "extract_infobox career_family_doc = []" by blast
  from b f have 2: "extract_infobox infobox_doc = infobox_rows [] (table_rows first_infobox)"
    by blast
  from b f m have 3: "\<exists>row\<in>set (table_rows first_infobox). \<exists>th td.
         first_named ''th'' row = Some th \<and> first_named ''td'' row = Some td
         \<and> clean_text (get_text th) = ''Born'' \<and> clean_text (get_text td) = ''London''"
    by blast
  from b f r h d kn vn
  have "clean_text (get_text (cell ''th'' ''Known  for'')) \<in> fst ` set (extract_infobox infobox_doc)"
    by blast
  then have 4: "''Known for'' \<in> fst ` set (extract_infobox infobox_doc)"
    by (simp only: k)
  from n 1 f x 2 3 h d 4 show ?thesis by blast
qed

text \<open>
  C10. When several rows of the first infobox table contribute a pair with the same
  label, the panel maps the label to the value of the last of them, and the panel has
  as many entries as there are different labels among the contributed pairs.
\<close>

theorem infobox_last_row_wins:
  assumes "find_all_tags is_infobox_table soup = infobox_table # others"
    and "List.map_filter row_pair (table_rows infobox_table) = before @ (label, v) # after"
    and "label \<notin> fst ` set after"
  shows "map_of (extract_infobox soup) label = Some v
         \<and> length (extract_infobox soup)
             = card (fst ` set (List.map_filter row_pair (table_rows infobox_table)))"
proof -
  have e: "extract_infobox soup = infobox_rows [] (table_rows infobox_table)"
    using assms(1) by (simp add: extract_infobox_first)
  have "map_of (rev after) label = None"
    using assms(3) by (simp add: map_of_eq_None_iff)
  then have "map_of (rev (before @ (label, v) # after)) label = Some v"
    by (simp add: map_of_append map_add_def)
  then have "map_of (extract_infobox soup) label = Some v"
    by (simp add: e map_of_infobox_rows assms(2))
  then show ?thesis by (simp add: e length_infobox_rows)
qed

theorem infobox_last_row_wins_witness:
  "find_all_tags is_infobox_table infobox_doc = [first_infobox, second_infobox]
   \<and> List.map_filter row_pair (table_rows first_infobox)
       = [(''Born'', ''1815''), (''Known for'', ''Mathematics'')] @ (''Born'', ''London'') # []
   \<and> ''Born'' \<notin> fst ` set ([] :: (string \<times> string) list)
   \<and> map_of (extract_infobox infobox_doc) ''Born'' = Some ''London''
   \<and> length (extract_infobox infobox_doc) = 2
   \<and> card (fst ` set (List.map_filter row_pair (table_rows first_infobox))) = 2
   \<and> length (List.map_filter row_pair (table_rows first_infobox)) = 3"
proof -
  have f: "find_all_tags is_infobox_table infobox_doc = [first_infobox, second_infobox]"
    by code_simp
  have q: "List.map_filter row_pair (table_rows first_infobox)
       = [(''Born'', ''1815''), (''Known for'', ''Mathematics'')] @ (''Born'', ''London'') # []"
    by code_simp
  have e: "''Born'' \<notin> fst ` set ([] :: (string \<times> string) list)"
    by simp
  have l: "length (extract_infobox infobox_doc) = 2"
    by code_simp
  from infobox_last_row_wins[OF f q e] f q e l show ?thesis by simp
qed

section \<open>Faults and the summary in \<open>get_person_data\<close>\<close>

lemma get_person_data_returns: "\<exists>data. get_person_data w name = Returns data"
  by (simp add: get_person_data_def split: outcome.splits)

lemma fetch_person_Raises:
  "fetch_person w name = Raises e \<Longrightarrow> get_person_data w name = Returns (Failure e)"
  by (simp add: get_person_data_def)

text \<open>
  C3, as stated, fails for a response with a non-success status. \<open>session.get\<close> returns
  such a response like any other, and the code never reads the status: in
  \<open>not_found_status_world\<close> the markup comes with status 404 and the result is a success,
  not a failure.
\<close>

theorem non_success_status_counterexample:
  "session_get not_found_status_world (wiki_url ''Ada Lovelace'')
     = Returns \<lparr>status_code = 404, response_text = ''<html></html>''\<rparr>
   \<and> get_person_data not_found_status_world ''Ada Lovelace''
       = Returns (Success sample_summary [] (extract_events career_family_doc)
                    ''https://en.wikipedia.org/wiki/Ada_Lovelace'')"
  by code_simp

text \<open>
  C3, amended. \<open>get_person_data\<close> always returns a value and never raises. When the page
  does not exist the value is the failure \<open>Page not found\<close>; when any of the calls into
  the libraries (the lookup of the page, the request for the markup, the parser, the
  read of the summary) raises, the value is the failure that carries the message of what
  was raised. A response that is returned is never a fault, whatever its status: when
  all four calls return, the value is a success.
\<close>

theorem get_person_data_contains_raised_faults:
  "(\<exists>data. get_person_data w name = Returns data)
   \<and> (page_exists w (replace_spaces name) = Returns False
        \<longrightarrow> get_person_data w name = Returns (Failure ''Page not found''))
   \<and> (page_exists w (replace_spaces name) = Raises e
        \<longrightarrow> get_person_data w name = Returns (Failure e))
   \<and> (page_exists w (replace_spaces name) = Returns True
        \<and> session_get w (wiki_url name) = Raises e
        \<longrightarrow> get_person_data w name = Returns (Failure e))
   \<and> (page_exists w (replace_spaces name) = Returns True
        \<and> session_get w (wiki_url name) = Returns response
        \<and> html_parser w (response_text response) = Raises e
        \<longrightarrow> get_person_data w name = Returns (Failure e))
   \<and> (page_exists w (replace_spaces name) = Returns True
        \<and> session_get w (wiki_url name) = Returns response
        \<and> html_parser w (response_text response) = Returns soup
        \<and> page_summary w (replace_spaces name) = Raises e
        \<longrightarrow> get_person_data w name = Returns (Failure e))
   \<and> (page_exists w (replace_spaces name) = Returns True
        \<and> session_get w (wiki_url name) = Returns \<lparr>status_code = status, response_text = markup\<rparr>
        \<and> html_parser w markup = Returns soup
        \<and> page_summary w (replace_spaces name) = Returns raw
        \<longrightarrow> get_person_data w name
              = Returns (Success (take 3000 raw) (extract_infobox soup) (extract_events soup)
                           (wiki_url name)))"
  by (simp add: get_person_data_def fetch_person_def Let_def split: outcome.splits)

theorem get_person_data_contains_raised_faults_witness:
  "get_person_data missing_world ''Unknown Person XYZ123'' = Returns (Failure ''Page not found'')
   \<and> get_person_data lookup_fault_world ''Ada Lovelace'' = Returns (Failure ''Connection refused'')
   \<and> get_person_data timeout_world ''Ada Lovelace'' = Returns (Failure ''Read timed out.'')
   \<and> get_person_data parser_fault_world ''Ada Lovelace'' = Returns (Failure ''bad markup'')
   \<and> get_person_data summary_fault_world ''Ada Lovelace'' = Returns (Failure ''Server error'')
   \<and> session_get not_found_status_world (wiki_url ''Ada Lovelace'')
       = Returns \<lparr>status_code = 404, response_text = ''<html></html>''\<rparr>
   \<and> get_person_data not_found_status_world ''Ada Lovelace''
       = Returns (Success (take 3000 sample_summary) (extract_infobox career_family_doc)
                    (extract_events career_family_doc) (wiki_url ''Ada Lovelace''))"
proof -
  let ?r = "\<lparr>status_code = 200, response_text = ''<html></html>''\<rparr>"
  have 1: "page_exists missing_world (replace_spaces ''Unknown Person XYZ123'') = Returns False"
    by (simp add: missing_world_def sample_world_def)
  have 2: "page_exists lookup_fault_world (replace_spaces ''Ada Lovelace'') = Raises ''Connection refused''"
    by (simp add: lookup_fault_world_def sample_world_def)
  have 3: "page_exists timeout_world (replace_spaces ''Ada Lovelace'') = Returns True
           \<and> session_get timeout_world (wiki_url ''Ada Lovelace'') = Raises ''Read timed out.''"
    by (simp add: timeout_world_def sample_world_def)
  have 4: "page_exists parser_fault_world (replace_spaces ''Ada Lovelace'') = Returns True
           \<and> session_get parser_fault_world (wiki_url ''Ada Lovelace'') = Returns ?r
           \<and> html_parser parser_fault_world (response_text ?r) = Raises ''bad markup''"
    by (simp add: parser_fault_world_def sample_world_def)
  have 5: "page_exists summary_fault_world (replace_spaces ''Ada Lovelace'') = Returns True
           \<and> session_get summary_fault_world (wiki_url ''Ada Lovelace'') = Returns ?r
           \<and> html_parser summary_fault_world (response_text ?r) = Returns career_family_doc
           \<and> page_summary summary_fault_world (replace_spaces ''Ada Lovelace'') = Raises ''Server error''"
    by (simp add: summary_fault_world_def sample_world_def)
  have 6: "page_exists not_found_status_world (replace_spaces ''Ada Lovelace'') = Returns True
           \<and> session_get not_found_status_world (wiki_url ''Ada Lovelace'')
               = Returns \<lparr>status_code = 404, response_text = ''<html></html>''\<rparr>
           \<and> html_parser not_found_status_world ''<html></html>'' = Returns career_family_doc
           \<and> page_summary not_found_status_world (replace_spaces ''Ada Lovelace'')
               = Returns sample_summary"
    by (simp add: not_found_status_world_def sample_world_def)
  from 1 get_person_data_contains_raised_faults[of missing_world "''Unknown Person XYZ123''"]
  have a: "get_person_data missing_world ''Unknown Person XYZ123'' = Returns (Failure ''Page not found'')"
    by blast
  from 2 get_person_data_contains_raised_faults
           [of lookup_fault_world "''Ada Lovelace''" "''Connection refused''"]
  have b: "get_person_data lookup_fault_world ''Ada Lovelace'' = Returns (Failure ''Connection refused'')"
    by blast
  from 3 get_person_data_contains_raised_faults
           [of timeout_world "''Ada Lovelace''" "''Read timed out.''"]
  have c: "get_person_data timeout_world ''Ada Lovelace'' = Returns (Failure ''Read timed out.'')"
    by blast
  from 4 get_person_data_contains_raised_faults
           [of parser_fault_world "''Ada Lovelace''" "''bad markup''" ?r]
  have d: "get_person_data parser_fault_world ''Ada Lovelace'' = Returns (Failure ''bad markup'')"
    by blast
  from 5 get_person_data_contains_raised_faults
           [of summary_fault_world "''Ada Lovelace''" "''Server error''" ?r career_family_doc]
  have e: "get_person_data summary_fault_world ''Ada Lovelace'' = Returns (Failure ''Server error'')"
    by blast
  from 6 get_person_data_contains_raised_faults
           [where w = not_found_status_world and name = "''Ada Lovelace''" and status = 404
              and markup = "''<html></html>''" and soup = career_family_doc
              and raw = sample_summary]
  have f: "get_person_data not_found_status_world ''Ada Lovelace''
       = Returns (Success (take 3000 sample_summary) (extract_infobox career_family_doc)
                    (extract_events career_family_doc) (wiki_url ''Ada Lovelace''))"
    by blast
  from a b c d e f 6 show ?thesis by blast
qed

lemma map_of_add_infobox:
  "(\<And>key. k \<noteq> ''Infobox_'' @ key) \<Longrightarrow> map_of (add_infobox result items) k = map_of result k"
proof (induction items arbitrary: result)
  case Nil
  then show ?case by simp
next
  case (Cons item items)
  obtain key v where i: "item = (key, v)" by (cases item)
  from Cons.prems have "k \<noteq> ''Infobox_'' @ key" by blast
  then have "map_of (AList.update (''Infobox_'' @ key) (Str v) result) k = map_of result k"
    by (simp add: update_conv')
  with Cons.IH[OF Cons.prems, of "AList.update (''Infobox_'' @ key) (Str v) result"] i
  show ?case by simp
qed

lemma person_result_Summary:
  "map_of (person_result person data) ''Summary'' = Some (Str (data_summary data))"
proof -
  have "map_of (add_infobox (base_fields person data) (data_infobox data)) ''Summary''
          = map_of (base_fields person data) ''Summary''"
    by (rule map_of_add_infobox) simp
  then show ?thesis
    by (simp add: person_result_def update_conv' base_fields_def)
qed

text \<open>
  C9. When every call returns, the stored summary is the first 3000 characters of the
  summary that the library returned, with nothing else done to it, and that is what the
  result of \<open>process_person\<close> holds under \<open>Summary\<close>. It is not cleaned: a citation
  marker and a doubled space in it stay.
\<close>

theorem summary_is_raw_prefix:
  assumes "map_of person ''Name'' = Some name"
    and "page_exists w (replace_spaces name) = Returns True"
    and "session_get w (wiki_url name) = Returns response"
    and "html_parser w (response_text response) = Returns soup"
    and "page_summary w (replace_spaces name) = Returns raw"
  shows "get_person_data w name
           = Returns (Success (take 3000 raw) (extract_infobox soup) (extract_events soup)
                        (wiki_url name))
         \<and> (\<exists>result. process_person w person = Returns result
                \<and> map_of result ''Summary'' = Some (Str (take 3000 raw)))"
proof -
  have g: "get_person_data w name
           = Returns (Success (take 3000 raw) (extract_infobox soup) (extract_events soup)
                        (wiki_url name))"
    using assms(2-5) by (simp add: get_person_data_def fetch_person_def Let_def)
  then have "process_person w person
               = Returns (person_result person (Success (take 3000 raw) (extract_infobox soup)
                            (extract_events soup) (wiki_url name)))"
    using assms(1) by (simp add: process_person_def)
  with g show ?thesis by (simp add: person_result_Summary)
qed

theorem summary_is_raw_prefix_witness:
  "map_of [(''Name'', ''Ada Lovelace'')] ''Name'' = Some ''Ada Lovelace''
   \<and> page_exists sample_world (replace_spaces ''Ada Lovelace'') = Returns True
   \<and> session_get sample_world (wiki_url ''Ada Lovelace'')
       = Returns \<lparr>status_code = 200, response_text = ''<html></html>''\<rparr>
   \<and> html_parser sample_world ''<html></html>'' = Returns career_family_doc
   \<and> page_summary sample_world (replace_spaces ''Ada Lovelace'') = Returns sample_summary
   \<and> take 3000 sample_summary = sample_summary
   \<and> get_person_data sample_world ''Ada Lovelace''
       = Returns (Success sample_summary (extract_infobox career_family_doc)
                    (extract_events career_family_doc) (wiki_url ''Ada Lovelace''))
   \<and> (\<exists>result. process_person sample_world [(''Name'', ''Ada Lovelace'')] = Returns result
         \<and> map_of result ''Summary'' = Some (Str sample_summary))
   \<and> has_citation sample_summary
   \<and> has_double_space sample_summary
   \<and> clean_text sample_summary = ''Ada Lovelace was a mathematician.''"
proof -
  let ?r = "\<lparr>status_code = 200, response_text = ''<html></html>''\<rparr>"
  have 1: "map_of [(''Name'', ''Ada Lovelace'')] ''Name'' = Some ''Ada Lovelace''" by simp
  have 2: "page_exists sample_world (replace_spaces ''Ada Lovelace'') = Returns True"
    by (simp add: sample_world_def)
  have 3: "session_get sample_world (wiki_url ''Ada Lovelace'') = Returns ?r"
    by (simp add: sample_world_def)
  have 4: "html_parser sample_world (response_text ?r) = Returns career_family_doc"
    by (simp add: sample_world_def)
  have 5: "page_summary sample_world (replace_spaces ''Ada Lovelace'') = Returns sample_summary"
    by (simp add: sample_world_def)
  have t: "take 3000 sample_summary = sample_summary" by code_simp
  have c: "has_citation sample_summary" by code_simp
  have d: "has_double_space sample_summary" by code_simp
  have e: "clean_text sample_summary = ''Ada Lovelace was a mathematician.''" by code_simp
  from summary_is_raw_prefix[OF 1 2 3 4 5] 1 2 3 4 5 t c d e show ?thesis by simp
qed

section \<open>Properties of the loop over the completed tasks\<close>


























section \<open>A task that raises\<close>





section \<open>Expanding the events into rows\<close>










end
